theory Spec2Isabelle
  imports Complex_Main "HOL-Library.Sublist" "HOL-Library.List_Lexorder"
begin

section \<open>Python values used by the network model\<close>

text \<open>
  Exceptions are values: every \<^verbatim>\<open>raise\<close> of the source is an \<open>Inl\<close> branch of the
  model.  \<open>ValueError\<close> is what the validators and numpy raise, \<open>KeyError\<close> a failed
  dictionary lookup, \<open>TypeError\<close> an unorderable comparison or an iteration over
  \<^verbatim>\<open>None\<close>, \<open>UnboundLocalError\<close> the read of a local variable that no branch assigned.
\<close>

datatype error = ValueError | KeyError | TypeError | UnboundLocalError

text \<open>
  A numeric array as \<^verbatim>\<open>np.array\<close> receives it and as JSON carries it: a number, or a
  sequence of arrays.  A float is read as the real number it denotes, so comparing
  two floats is exact here as it is in the program; the rounding of float
  arithmetic and the dtype of an array are not represented.
\<close>

datatype nd = Num real | Arr "nd list"

fun children :: "nd \<Rightarrow> nd list" where
  "children (Num r) = []"
| "children (Arr xs) = xs"

fun shape :: "nd \<Rightarrow> nat list" where
  "shape (Num r) = []"
| "shape (Arr []) = [0]"
| "shape (Arr (x # xs)) = Suc (length xs) # shape x"

text \<open>Rectangular nestings are the ones \<^verbatim>\<open>np.array\<close> turns into a numeric array.\<close>

fun rect :: "nd \<Rightarrow> bool" where
  "rect (Num r) = True"
| "rect (Arr xs) = list_all (\<lambda>x. rect x \<and> shape x = shape (hd xs)) xs"

fun elems :: "nd \<Rightarrow> real list" where
  "elems (Num r) = [r]"
| "elems (Arr xs) = concat (map elems xs)"

definition np_array :: "nd \<Rightarrow> error + nd" where
  "np_array x = (if rect x then Inr x else Inl ValueError)"

definition np_ones2 :: "nat \<Rightarrow> nd" where
  \<comment> \<open>\<^verbatim>\<open>np.ones((n, n))\<close>\<close>
  "np_ones2 n = Arr (replicate n (Arr (replicate n (Num 1))))"

definition np_halves :: "nat \<Rightarrow> nd" where
  \<comment> \<open>\<^verbatim>\<open>np.ones(n) / 2\<close>\<close>
  "np_halves n = Arr (replicate n (Num (1 / 2)))"

text \<open>
  The array object of numpy: its content and the \<^verbatim>\<open>flags.writeable\<close> bit.  An
  item assignment into an array whose bit is cleared raises \<^verbatim>\<open>ValueError\<close>
  (assignment destination is read-only) and leaves the array as it was.
\<close>

record ndarray =
  arr :: nd
  writeable :: bool

fun nd_update :: "nd \<Rightarrow> nat list \<Rightarrow> real \<Rightarrow> nd" where
  "nd_update (Num r) is v = Num v"
| "nd_update (Arr xs) [] v = Arr xs"
| "nd_update (Arr xs) (i # is) v =
     (if i < length xs then Arr (xs[i := nd_update (xs ! i) is v]) else Arr xs)"

definition ndarray_setitem :: "ndarray \<Rightarrow> nat list \<Rightarrow> real \<Rightarrow> error + ndarray" where
  "ndarray_setitem a is v =
     (if writeable a then Inr (a\<lparr>arr := nd_update (arr a) is v\<rparr>) else Inl ValueError)"

definition array_equal :: "ndarray \<Rightarrow> ndarray \<Rightarrow> bool" where
  \<comment> \<open>\<^verbatim>\<open>np.array_equal\<close>: same shape and the same elements.\<close>
  "array_equal a b = (arr a = arr b)"

section \<open>Matrix validator and converter\<close>

text \<open>
  The modules \<^verbatim>\<open>validate\<close>, \<open>convert\<close>, \<open>utils\<close>, \<open>constants\<close>, \<open>cache\<close> and
  \<open>cmp\<close> of the package are imported by the two modules under study, and their
  functions are embedded here from their contracts.
\<close>

fun log2 :: "nat \<Rightarrow> nat" where
  "log2 n = (if n < 2 then 0 else Suc (log2 (n div 2)))"

declare log2.simps [simp del]

definition state_by_state :: "nd \<Rightarrow> bool" where
  \<comment> \<open>Modelled from the spec: \<^verbatim>\<open>utils.state_by_state\<close> is missing; the setter's comment
      calls its positive case a square state-by-state TPM: two dimensions, equal.\<close>
  "state_by_state t = (case shape t of [a, b] \<Rightarrow> a = b | _ \<Rightarrow> False)"

definition probabilities :: "nd \<Rightarrow> bool" where
  "probabilities t = list_all (\<lambda>p. 0 \<le> p \<and> p \<le> 1) (elems t)"

definition validate_tpm :: "nd \<Rightarrow> bool" where
  \<comment> \<open>Modelled from the spec: \<^verbatim>\<open>validate.tpm\<close> is missing.  Section 4.1: the TPM is
      rank-consistent with the state-by-state layout (\<open>S \<times> S\<close>, \<open>S = 2^N\<close>) or with a
      state-by-node layout (\<open>S \<times> N\<close>, or \<open>[2]*N + [N]\<close>), its entries are
      probabilities, and each row of the state-by-state form sums to 1.  The numeric
      tolerance of the checks allows for float rounding; over the reals the bounds
      are exact.  \<open>False\<close> stands for the raised \<^verbatim>\<open>ValueError\<close>.\<close>
  "validate_tpm t =
     (rect t \<and> shape t \<noteq> [] \<and> probabilities t \<and>
      (let sh = shape t; N = last sh in
         if state_by_state t
         then 2 ^ log2 (hd sh) = hd sh \<and> list_all (\<lambda>r. sum_list (elems r) = 1) (children t)
         else sh = [2 ^ N, N] \<or> sh = replicate N 2 @ [N]))"

definition on_probability :: "real list \<Rightarrow> nat \<Rightarrow> real" where
  \<comment> \<open>The probability mass of the successor states in which node \<open>k\<close> is on: those
      whose index has bit \<open>k\<close> set (the low-order bit is node 0).\<close>
  "on_probability row k =
     sum_list (map (\<lambda>j. if odd (j div 2 ^ k) then row ! j else 0) [0..<length row])"

definition marginal_row :: "nat \<Rightarrow> nd \<Rightarrow> nd" where
  "marginal_row N r = Arr (map (\<lambda>k. Num (on_probability (elems r) k)) [0..<N])"

definition marginalize :: "nd \<Rightarrow> nd" where
  \<comment> \<open>The two-dimensional state-by-node form (\<open>S \<times> N\<close>) of a state-by-state TPM.\<close>
  "marginalize t = Arr (map (marginal_row (log2 (hd (shape t)))) (children t))"

fun evens :: "'a list \<Rightarrow> 'a list" where
  "evens [] = []"
| "evens [x] = [x]"
| "evens (x # y # zs) = x # evens zs"

fun odds :: "'a list \<Rightarrow> 'a list" where
  "odds [] = []"
| "odds [x] = []"
| "odds (x # y # zs) = y # odds zs"

fun tensor :: "nat \<Rightarrow> nd list \<Rightarrow> nd" where
  \<comment> \<open>The rows of a two-dimensional state-by-node TPM as the tensor in which index
      \<open>(b\<^sub>0, \<dots>, b\<^sub>N\<^sub>-\<^sub>1)\<close> holds row \<open>\<Sum> b\<^sub>k 2^k\<close>: the first index is the low-order bit.\<close>
  "tensor 0 rows = (case rows of [] \<Rightarrow> Arr [] | r # rs \<Rightarrow> r)"
| "tensor (Suc n) rows = Arr [tensor n (evens rows), tensor n (odds rows)]"

definition to_n_dimensional :: "nd \<Rightarrow> nd" where
  \<comment> \<open>Modelled from the spec: \<^verbatim>\<open>convert.to_n_dimensional\<close> is missing.  Section 4.2:
      a state-by-node TPM, two-dimensional or already N-dimensional, becomes the
      canonical \<open>[2]*N + [N]\<close> tensor; on the canonical form it is a no-op
      (section 8).  The setter calls it on validated arrays only.\<close>
  "to_n_dimensional t =
     (let N = last (shape t) in
        if shape t = replicate N 2 @ [N] then t else tensor N (children t))"

definition state_by_state2state_by_node :: "nd \<Rightarrow> nd" where
  \<comment> \<open>Modelled from the spec: \<^verbatim>\<open>convert.state_by_state2state_by_node\<close> is missing.
      Section 4.2: for each prior state, the per-node marginal on-probability; the
      setter's comment and section 3 have the result in the N-dimensional form.\<close>
  "state_by_state2state_by_node t =
     tensor (log2 (hd (shape t))) (children (marginalize t))"

fun nd_index :: "nd \<Rightarrow> nat list \<Rightarrow> nd" where
  "nd_index t [] = t"
| "nd_index t (i # is) = nd_index (children t ! i) is"

fun loli_index :: "nat list \<Rightarrow> nat" where
  \<comment> \<open>\<open>\<Sum> b\<^sub>k 2^k\<close>\<close>
  "loli_index [] = 0"
| "loli_index (b # bs) = b + 2 * loli_index bs"

section \<open>Network\<close>

text \<open>
  The attributes of a \<^verbatim>\<open>Network\<close> object.  \<open>tpm\<close>, \<open>connectivity_matrix\<close> and
  \<open>perturb_vector\<close> are the arrays behind the properties of the same names; the
  purview cache is a dictionary keyed by direction and mechanism.
\<close>

record Network =
  tpm :: ndarray
  tpm_hash :: int
  num_states :: nat
  node_indices :: "int list"
  node_labels :: "string list option"
  connectivity_matrix :: ndarray
  cm_hash :: int
  perturb_vector :: ndarray
  pv_hash :: int
  purview_cache :: "string \<times> int list \<rightharpoonup> int list list"

definition size_of :: "Network \<Rightarrow> nat" where
  \<comment> \<open>The property \<^verbatim>\<open>size\<close>: \<^verbatim>\<open>self.tpm.shape[-1]\<close>.\<close>
  "size_of n = last (shape (arr (tpm n)))"

definition frozen :: "nd \<Rightarrow> ndarray" where
  \<comment> \<open>\<^verbatim>\<open>a.flags.writeable = False\<close>\<close>
  "frozen a = \<lparr>arr = a, writeable = False\<rparr>"

text \<open>
  The three property setters.  Each returns the frozen array and its content hash;
  \<open>np_hash\<close> stands for \<^verbatim>\<open>utils.np_hash\<close>, a function of the array.
\<close>

definition tpm_setter :: "(nd \<Rightarrow> int) \<Rightarrow> nd \<Rightarrow> error + ndarray \<times> int" where
  "tpm_setter np_hash t =
     (case np_array t of
        Inl e \<Rightarrow> Inl e
      | Inr a \<Rightarrow>
          if \<not> validate_tpm a then Inl ValueError
          else let c = (if state_by_state a then state_by_state2state_by_node a
                        else to_n_dimensional a)
               in Inr (frozen c, np_hash c))"

definition connectivity_matrix_setter ::
  "(nd \<Rightarrow> int) \<Rightarrow> nat \<Rightarrow> nd option \<Rightarrow> error + ndarray \<times> int" where
  "connectivity_matrix_setter np_hash sz cm =
     (case cm of
        Some c \<Rightarrow> (case np_array c of
                     Inl e \<Rightarrow> Inl e
                   | Inr a \<Rightarrow> Inr (frozen a, np_hash a))
      | None \<Rightarrow> Inr (frozen (np_ones2 sz), np_hash (np_ones2 sz)))"

definition perturb_vector_setter ::
  "(nd \<Rightarrow> int) \<Rightarrow> nat \<Rightarrow> nd option \<Rightarrow> error + ndarray \<times> int" where
  "perturb_vector_setter np_hash sz pv =
     (case pv of
        Some p \<Rightarrow> (case np_array p of
                     Inl e \<Rightarrow> Inl e
                   | Inr a \<Rightarrow> Inr (frozen a, np_hash a))
      | None \<Rightarrow> Inr (frozen (np_halves sz), np_hash (np_halves sz)))"

definition validate_network :: "Network \<Rightarrow> bool" where
  \<comment> \<open>Modelled from the spec: \<^verbatim>\<open>validate.network\<close> is missing.  Section 4.1: the CM
      is square, binary-valued and \<open>N \<times> N\<close> for the TPM's node count; section 3: the
      labels, if given, are in bijection with the node indices.\<close>
  "validate_network n =
     (let c = arr (connectivity_matrix n) in
        rect c \<and> shape c = [size_of n, size_of n] \<and>
        list_all (\<lambda>x. x = 0 \<or> x = 1) (elems c) \<and>
        (case node_labels n of
           None \<Rightarrow> True
         | Some ls \<Rightarrow> length ls = size_of n \<and> distinct ls))"

definition Network_init ::
  "(nd \<Rightarrow> int) \<Rightarrow> nd \<Rightarrow> nd option \<Rightarrow> string list option \<Rightarrow> nd option \<Rightarrow>
   (string \<times> int list \<rightharpoonup> int list list) option \<Rightarrow> error + Network" where
  "Network_init np_hash t cm labels pv cache =
     (case tpm_setter np_hash t of
        Inl e \<Rightarrow> Inl e
      | Inr (ta, th) \<Rightarrow>
          let sz = last (shape (arr ta)) in
          (case connectivity_matrix_setter np_hash sz cm of
             Inl e \<Rightarrow> Inl e
           | Inr (ca, ch) \<Rightarrow>
               (case perturb_vector_setter np_hash sz pv of
                  Inl e \<Rightarrow> Inl e
                | Inr (pa, ph) \<Rightarrow>
                    let n = \<lparr>tpm = ta, tpm_hash = th, num_states = 2 ^ sz,
                             node_indices = map int [0..<sz], node_labels = labels,
                             connectivity_matrix = ca, cm_hash = ch,
                             perturb_vector = pa, pv_hash = ph,
                             purview_cache = (case cache of None \<Rightarrow> Map.empty | Some m \<Rightarrow> m)\<rparr>
                    in if validate_network n then Inr n else Inl ValueError)))"

text \<open>Assignment to the properties of a constructed network runs the same setters.\<close>

definition set_tpm :: "(nd \<Rightarrow> int) \<Rightarrow> Network \<Rightarrow> nd \<Rightarrow> error + Network" where
  "set_tpm np_hash n t =
     (case tpm_setter np_hash t of
        Inl e \<Rightarrow> Inl e
      | Inr (ta, th) \<Rightarrow> Inr (n\<lparr>tpm := ta, tpm_hash := th\<rparr>))"

definition set_connectivity_matrix ::
  "(nd \<Rightarrow> int) \<Rightarrow> Network \<Rightarrow> nd option \<Rightarrow> error + Network" where
  "set_connectivity_matrix np_hash n cm =
     (case connectivity_matrix_setter np_hash (size_of n) cm of
        Inl e \<Rightarrow> Inl e
      | Inr (ca, ch) \<Rightarrow> Inr (n\<lparr>connectivity_matrix := ca, cm_hash := ch\<rparr>))"

definition set_perturb_vector ::
  "(nd \<Rightarrow> int) \<Rightarrow> Network \<Rightarrow> nd option \<Rightarrow> error + Network" where
  "set_perturb_vector np_hash n pv =
     (case perturb_vector_setter np_hash (size_of n) pv of
        Inl e \<Rightarrow> Inl e
      | Inr (pa, ph) \<Rightarrow> Inr (n\<lparr>perturb_vector := pa, pv_hash := ph\<rparr>))"

subsection \<open>Equality, hash and serialisation\<close>

datatype py_object =
  NetworkObj Network | NoneObj | IntObj int | FloatObj real | StrObj string | ArrayObj nd

fun Network_eq :: "Network \<Rightarrow> py_object \<Rightarrow> bool" where
  "Network_eq self (NetworkObj other) =
     (array_equal (tpm self) (tpm other) \<and>
      array_equal (connectivity_matrix self) (connectivity_matrix other) \<and>
      array_equal (perturb_vector self) (perturb_vector other))"
| "Network_eq self other = False"

definition Network_ne :: "Network \<Rightarrow> py_object \<Rightarrow> bool" where
  "Network_ne self other = (\<not> Network_eq self other)"

definition Network_hash :: "(int list \<Rightarrow> int) \<Rightarrow> Network \<Rightarrow> int" where
  \<comment> \<open>\<open>py_hash\<close> is the hash of a tuple of integers.\<close>
  "Network_hash py_hash self = py_hash [tpm_hash self, cm_hash self, pv_hash self]"

datatype json = JArray nd | JInt int

definition to_json :: "Network \<Rightarrow> string \<rightharpoonup> json" where
  "to_json self =
     [''tpm'' \<mapsto> JArray (arr (tpm self)),
      ''cm'' \<mapsto> JArray (arr (connectivity_matrix self)),
      ''size'' \<mapsto> JInt (int (size_of self))]"

fun json_nd :: "json \<Rightarrow> nd" where
  "json_nd (JArray a) = a"
| "json_nd (JInt i) = Num (of_int i)"

definition from_json :: "(nd \<Rightarrow> int) \<Rightarrow> (string \<rightharpoonup> json) \<Rightarrow> error + Network" where
  \<comment> \<open>The dictionary is what \<^verbatim>\<open>json.load\<close> read from the file.\<close>
  "from_json np_hash network_dictionary =
     (case network_dictionary ''tpm'' of
        None \<Rightarrow> Inl KeyError
      | Some t \<Rightarrow>
          (case network_dictionary ''cm'' of
             None \<Rightarrow> Inl KeyError
           | Some cm \<Rightarrow> Network_init np_hash (json_nd t) (Some (json_nd cm)) None None None))"

subsection \<open>Node labels and indices\<close>

fun lookup_all :: "(string \<rightharpoonup> int) \<Rightarrow> string list \<Rightarrow> error + int list" where
  \<comment> \<open>\<^verbatim>\<open>tuple(_map[label] for label in labels)\<close>: the first missing key raises.\<close>
  "lookup_all m [] = Inr []"
| "lookup_all m (l # ls) =
     (case m l of
        None \<Rightarrow> Inl KeyError
      | Some i \<Rightarrow> (case lookup_all m ls of Inl e \<Rightarrow> Inl e | Inr is \<Rightarrow> Inr (i # is)))"

definition labels2indices :: "Network \<Rightarrow> string list \<Rightarrow> error + int list" where
  \<comment> \<open>\<^verbatim>\<open>dict(zip(...))\<close> keeps the last pair of a repeated key; \<^verbatim>\<open>zip\<close> over
      \<^verbatim>\<open>None\<close> raises \<^verbatim>\<open>TypeError\<close>.\<close>
  "labels2indices self labels =
     (case node_labels self of
        None \<Rightarrow> Inl TypeError
      | Some ls \<Rightarrow> lookup_all (map_of (rev (zip ls (node_indices self)))) labels)"

text \<open>An element of the sequence given to \<^verbatim>\<open>generate_node_indices\<close>: a string or an integer.\<close>

datatype node = Label string | Index int

fun is_str :: "node \<Rightarrow> bool" where
  "is_str (Label s) = True"
| "is_str (Index i) = False"

fun the_str :: "node \<Rightarrow> string" where
  "the_str (Label s) = s"
| "the_str (Index i) = []"

text \<open>
  Python's \<^verbatim>\<open>int\<close> on a string: surrounding whitespace is dropped, a sign may lead,
  and the rest is decimal digits, where a single underscore may stand between two
  digits.  Anything else raises \<^verbatim>\<open>ValueError\<close>.
\<close>

definition is_space :: "char \<Rightarrow> bool" where
  "is_space c = (c \<in> set [CHR '' '', CHR 0x09, CHR 0x0A, CHR 0x0B, CHR 0x0C, CHR 0x0D])"

definition is_digit :: "char \<Rightarrow> bool" where
  "is_digit c = (48 \<le> (of_char c :: nat) \<and> (of_char c :: nat) \<le> 57)"

definition digit_val :: "char \<Rightarrow> nat" where
  "digit_val c = of_char c - 48"

fun parse_digits :: "nat \<Rightarrow> string \<Rightarrow> nat option" where
  "parse_digits acc [] = Some acc"
| "parse_digits acc (c # cs) =
     (if is_digit c then parse_digits (acc * 10 + digit_val c) cs
      else if c = CHR ''_'' then
        (case cs of
           [] \<Rightarrow> None
         | d # ds \<Rightarrow> if is_digit d then parse_digits (acc * 10 + digit_val d) ds else None)
      else None)"

definition parse_nat :: "string \<Rightarrow> nat option" where
  "parse_nat s =
     (case s of
        [] \<Rightarrow> None
      | c # cs \<Rightarrow> if is_digit c then parse_digits (digit_val c) cs else None)"

definition strip :: "string \<Rightarrow> string" where
  "strip s = rev (dropWhile is_space (rev (dropWhile is_space s)))"

definition int_of_str :: "string \<Rightarrow> error + int" where
  "int_of_str s =
     (case strip s of
        [] \<Rightarrow> Inl ValueError
      | c # cs \<Rightarrow>
          if c = CHR ''-'' then
            (case parse_nat cs of None \<Rightarrow> Inl ValueError | Some k \<Rightarrow> Inr (- int k))
          else if c = CHR ''+'' then
            (case parse_nat cs of None \<Rightarrow> Inl ValueError | Some k \<Rightarrow> Inr (int k))
          else
            (case parse_nat (c # cs) of None \<Rightarrow> Inl ValueError | Some k \<Rightarrow> Inr (int k)))"

fun py_int :: "node \<Rightarrow> error + int" where
  "py_int (Index i) = Inr i"
| "py_int (Label s) = int_of_str s"

fun map_int :: "node list \<Rightarrow> error + int list" where
  \<comment> \<open>\<^verbatim>\<open>map(int, nodes)\<close>, consumed by \<^verbatim>\<open>set\<close>: the first failing conversion raises.\<close>
  "map_int [] = Inr []"
| "map_int (x # xs) =
     (case py_int x of
        Inl e \<Rightarrow> Inl e
      | Inr i \<Rightarrow> (case map_int xs of Inl e \<Rightarrow> Inl e | Inr is \<Rightarrow> Inr (i # is)))"

definition sorted_set :: "int list \<Rightarrow> int list" where
  \<comment> \<open>\<^verbatim>\<open>tuple(sorted(set(indices)))\<close>\<close>
  "sorted_set is = sort (remdups is)"

definition generate_node_indices :: "Network \<Rightarrow> node list \<Rightarrow> error + int list" where
  "generate_node_indices self nodes =
     (if length nodes = 0 then Inr (sorted_set [])
      else if list_all is_str nodes then
        (case labels2indices self (map the_str nodes) of
           Inl e \<Rightarrow> Inl e
         | Inr is \<Rightarrow> Inr (sorted_set is))
      else
        (case map_int nodes of
           Inl e \<Rightarrow> Inl e
         | Inr is \<Rightarrow> Inr (sorted_set is)))"

subsection \<open>Potential purviews\<close>

definition DIRECTIONS :: "string list" where
  \<comment> \<open>Modelled from the spec: \<^verbatim>\<open>constants.DIRECTIONS\<close> is missing; the two temporal
      directions are "past" (cause) and "future" (effect).\<close>
  "DIRECTIONS = [''past'', ''future'']"

definition PAST :: nat where
  "PAST = 0"

definition FUTURE :: nat where
  "FUTURE = 1"

text \<open>
  \<open>block_reducible\<close> stands for \<^verbatim>\<open>utils.block_reducible(cm, _from, to)\<close>, the block
  test on the connections from the first node set to the second.
\<close>

definition reducible ::
  "(nd \<Rightarrow> int list \<Rightarrow> int list \<Rightarrow> bool) \<Rightarrow> nd \<Rightarrow> string \<Rightarrow> int list \<Rightarrow> int list \<Rightarrow> error + bool" where
  \<comment> \<open>With any other direction neither branch assigns \<^verbatim>\<open>_from\<close> and \<^verbatim>\<open>to\<close>,
      and the call that reads them raises.\<close>
  "reducible block_reducible cm direction mechanism purview =
     (if direction = DIRECTIONS ! PAST then Inr (block_reducible cm purview mechanism)
      else if direction = DIRECTIONS ! FUTURE then Inr (block_reducible cm mechanism purview)
      else Inl UnboundLocalError)"

fun irreducible_purviews ::
  "(nd \<Rightarrow> int list \<Rightarrow> int list \<Rightarrow> bool) \<Rightarrow> nd \<Rightarrow> string \<Rightarrow> int list \<Rightarrow> int list list \<Rightarrow>
   error + int list list" where
  "irreducible_purviews block_reducible cm direction mechanism [] = Inr []"
| "irreducible_purviews block_reducible cm direction mechanism (purview # purviews) =
     (case reducible block_reducible cm direction mechanism purview of
        Inl e \<Rightarrow> Inl e
      | Inr b \<Rightarrow>
          (case irreducible_purviews block_reducible cm direction mechanism purviews of
             Inl e \<Rightarrow> Inl e
           | Inr rest \<Rightarrow> Inr (if \<not> b then purview # rest else rest)))"

fun combinations :: "'a list \<Rightarrow> nat \<Rightarrow> 'a list list" where
  "combinations xs 0 = [[]]"
| "combinations [] (Suc r) = []"
| "combinations (x # xs) (Suc r) = map ((#) x) (combinations xs r) @ combinations xs (Suc r)"

definition powerset :: "'a list \<Rightarrow> 'a list list" where
  \<comment> \<open>Modelled from the spec: \<^verbatim>\<open>utils.powerset\<close> is missing.  Section 4.3: every
      subset of the node indices as a sorted tuple, ascending by size, then
      lexicographic.\<close>
  "powerset xs = concat (map (combinations xs) [0..<length xs + 1])"

definition potential_purviews ::
  "(nd \<Rightarrow> int list \<Rightarrow> int list \<Rightarrow> bool) \<Rightarrow> Network \<Rightarrow> string \<Rightarrow> int list \<Rightarrow>
   (error + int list list) \<times> Network" where
  \<comment> \<open>Modelled from the spec: the decorator \<^verbatim>\<open>cache.method\<close> is missing.  Section 4.3:
      a memo on the network instance, keyed by direction and mechanism; a call that
      raises stores nothing.\<close>
  "potential_purviews block_reducible self direction mechanism =
     (case purview_cache self (direction, mechanism) of
        Some r \<Rightarrow> (Inr r, self)
      | None \<Rightarrow>
          (case irreducible_purviews block_reducible (arr (connectivity_matrix self))
                  direction mechanism (powerset (node_indices self)) of
             Inl e \<Rightarrow> (Inl e, self)
           | Inr r \<Rightarrow>
               (Inr r, self\<lparr>purview_cache := (purview_cache self)((direction, mechanism) \<mapsto> r)\<rparr>)))"

section \<open>System irreducibility analysis\<close>

text \<open>
  The subsystem is built elsewhere; an analysis reads its node indices, its length
  and its network.
\<close>

record Subsystem =
  subsystem_node_indices :: "int list"
  subsystem_network :: Network

definition subsystem_len :: "Subsystem \<Rightarrow> nat" where
  \<comment> \<open>Modelled from the spec: the class \<^verbatim>\<open>Subsystem\<close> is missing.  Section 6:
      \<^verbatim>\<open>len(subsystem)\<close> is its number of nodes.\<close>
  "subsystem_len s = length (subsystem_node_indices s)"

record 'c SystemIrreducibilityAnalysis =
  phi :: real
  unpartitioned_ces :: 'c
  partitioned_ces :: 'c
  subsystem :: Subsystem
  cut_subsystem :: Subsystem
  time :: "real option"
  small_phi_time :: "real option"

definition network :: "'c SystemIrreducibilityAnalysis \<Rightarrow> Network" where
  "network self = subsystem_network (subsystem self)"

definition order_by :: "'c SystemIrreducibilityAnalysis \<Rightarrow> real \<times> nat \<times> int list" where
  "order_by self =
     (phi self, subsystem_len (subsystem self), subsystem_node_indices (subsystem self))"

definition utils_eq :: "real \<Rightarrow> real \<Rightarrow> real \<Rightarrow> bool" where
  \<comment> \<open>Modelled from the spec: \<^verbatim>\<open>utils.eq\<close> and the tolerance of \<^verbatim>\<open>constants\<close> are
      missing.  Section 4.5: equality under a fixed tolerance \<open>tol\<close>; two values
      closer than the tolerance are equal.\<close>
  "utils_eq tol x y = (\<bar>x - y\<bar> < tol)"

definition SIA_bool :: "real \<Rightarrow> 'c SystemIrreducibilityAnalysis \<Rightarrow> bool" where
  "SIA_bool tol self = (\<not> utils_eq tol (phi self) 0)"

definition order_lt :: "real \<times> nat \<times> int list \<Rightarrow> real \<times> nat \<times> int list \<Rightarrow> bool" where
  \<comment> \<open>\<^verbatim>\<open>self.order_by() < other.order_by()\<close>: \<^verbatim>\<open>order_by\<close> returns a plain list, and
      Python compares two lists by their first pair of unequal elements, numbers
      exactly and tuples lexicographically.  No tolerance enters the comparison.\<close>
  "order_lt a b =
     (case a of (p, k, is) \<Rightarrow> case b of (q, l, js) \<Rightarrow>
        if p \<noteq> q then p < q
        else if k \<noteq> l then k < l
        else is < js)"

definition orderable :: "'c SystemIrreducibilityAnalysis \<Rightarrow> 'c SystemIrreducibilityAnalysis \<Rightarrow> bool" where
  \<comment> \<open>\<^verbatim>\<open>unorderable_unless_eq = ['network']\<close>: the attributes that must be equal.\<close>
  "orderable self other = Network_eq (network self) (NetworkObj (network other))"

definition SIA_lt ::
  "'c SystemIrreducibilityAnalysis \<Rightarrow> 'c SystemIrreducibilityAnalysis \<Rightarrow> error + bool" where
  \<comment> \<open>Modelled from the spec: the base class \<^verbatim>\<open>cmp.Orderable\<close> is missing.  Sections
      4.5 and 7: ordering two analyses whose networks are not content-equal raises;
      otherwise the keys of \<^verbatim>\<open>order_by\<close> are compared.\<close>
  "SIA_lt self other =
     (if \<not> orderable self other then Inl TypeError
      else Inr (order_lt (order_by self) (order_by other)))"

definition SIA_gt ::
  "'c SystemIrreducibilityAnalysis \<Rightarrow> 'c SystemIrreducibilityAnalysis \<Rightarrow> error + bool" where
  "SIA_gt self other = SIA_lt other self"

definition cache_consistent ::
  "(nd \<Rightarrow> int list \<Rightarrow> int list \<Rightarrow> bool) \<Rightarrow> Network \<Rightarrow> bool" where
  \<comment> \<open>Every entry of the purview cache is what the computation it stands for returns.\<close>
  "cache_consistent block_reducible self =
     (\<forall>direction mechanism r.
        purview_cache self (direction, mechanism) = Some r \<longrightarrow>
        irreducible_purviews block_reducible (arr (connectivity_matrix self))
          direction mechanism (powerset (node_indices self)) = Inr r)"

definition canonical :: "nd \<Rightarrow> nd" where
  \<comment> \<open>The conversion the TPM setter applies to a validated array.\<close>
  "canonical t =
     (if state_by_state t then state_by_state2state_by_node t else to_n_dimensional t)"

definition given_or :: "nd option \<Rightarrow> nd \<Rightarrow> nd" where
  \<comment> \<open>An optional argument, or its default.\<close>
  "given_or x d = (case x of Some a \<Rightarrow> a | None \<Rightarrow> d)"

subsection \<open>Writing into the arrays of a network\<close>

text \<open>
  Item assignment into one of the three arrays, \<^verbatim>\<open>network.tpm[index] = value\<close> and
  its two siblings: numpy writes into the array the property returns, or raises.
\<close>

definition setitem_tpm :: "Network \<Rightarrow> nat list \<Rightarrow> real \<Rightarrow> error + Network" where
  "setitem_tpm n index v =
     (case ndarray_setitem (tpm n) index v of
        Inl e \<Rightarrow> Inl e
      | Inr a \<Rightarrow> Inr (n\<lparr>tpm := a\<rparr>))"

definition setitem_connectivity_matrix :: "Network \<Rightarrow> nat list \<Rightarrow> real \<Rightarrow> error + Network" where
  "setitem_connectivity_matrix n index v =
     (case ndarray_setitem (connectivity_matrix n) index v of
        Inl e \<Rightarrow> Inl e
      | Inr a \<Rightarrow> Inr (n\<lparr>connectivity_matrix := a\<rparr>))"

definition setitem_perturb_vector :: "Network \<Rightarrow> nat list \<Rightarrow> real \<Rightarrow> error + Network" where
  "setitem_perturb_vector n index v =
     (case ndarray_setitem (perturb_vector n) index v of
        Inl e \<Rightarrow> Inl e
      | Inr a \<Rightarrow> Inr (n\<lparr>perturb_vector := a\<rparr>))"

section \<open>Example data\<close>

text \<open>
  A two-node network given by its state-by-state TPM, with a toy content hash, and
  analyses of three of its subsystems.
\<close>

definition example_np_hash :: "nd \<Rightarrow> int" where
  "example_np_hash a = \<lfloor>4 * sum_list (elems a)\<rfloor> + int (length (elems a))"

definition example_py_hash :: "int list \<Rightarrow> int" where
  "example_py_hash hs = sum_list hs"

definition example_sbs :: nd where
  "example_sbs =
     Arr [Arr [Num (1 / 2), Num (1 / 2), Num 0, Num 0],
          Arr [Num 0, Num 1, Num 0, Num 0],
          Arr [Num 0, Num 0, Num (1 / 4), Num (3 / 4)],
          Arr [Num 1, Num 0, Num 0, Num 0]]"

definition example_sbn :: nd where
  \<comment> \<open>The same dynamics, state-by-node, two-dimensional.\<close>
  "example_sbn =
     Arr [Arr [Num (1 / 2), Num 0], Arr [Num 1, Num 0],
          Arr [Num (3 / 4), Num 1], Arr [Num 0, Num 0]]"

definition example_nd :: nd where
  \<comment> \<open>The same dynamics, state-by-node, N-dimensional.\<close>
  "example_nd =
     Arr [Arr [Arr [Num (1 / 2), Num 0], Arr [Num (3 / 4), Num 1]],
          Arr [Arr [Num 1, Num 0], Arr [Num 0, Num 0]]]"

definition example_network :: Network where
  "example_network =
     \<lparr>tpm = \<lparr>arr = example_nd, writeable = False\<rparr>,
      tpm_hash = 21, num_states = 4, node_indices = [0, 1], node_labels = None,
      connectivity_matrix = \<lparr>arr = Arr [Arr [Num 1, Num 1], Arr [Num 1, Num 1]], writeable = False\<rparr>,
      cm_hash = 20,
      perturb_vector = \<lparr>arr = Arr [Num (1 / 2), Num (1 / 2)], writeable = False\<rparr>,
      pv_hash = 6, purview_cache = Map.empty\<rparr>"

definition example_labelled :: Network where
  "example_labelled = example_network\<lparr>node_labels := Some [''A'', ''B'']\<rparr>"

definition example_perturbed :: Network where
  \<comment> \<open>The same network with the perturbation vector \<open>[1/4, 3/4]\<close>.\<close>
  "example_perturbed =
     example_network\<lparr>perturb_vector := \<lparr>arr = Arr [Num (1 / 4), Num (3 / 4)], writeable = False\<rparr>\<rparr>"

definition example_sia :: "real \<Rightarrow> int list \<Rightarrow> Network \<Rightarrow> unit SystemIrreducibilityAnalysis" where
  "example_sia p nodes n =
     \<lparr>phi = p, unpartitioned_ces = (), partitioned_ces = (),
      subsystem = \<lparr>subsystem_node_indices = nodes, subsystem_network = n\<rparr>,
      cut_subsystem = \<lparr>subsystem_node_indices = nodes, subsystem_network = n\<rparr>,
      time = None, small_phi_time = None\<rparr>"

definition example_block_reducible :: "nd \<Rightarrow> int list \<Rightarrow> int list \<Rightarrow> bool" where
  \<comment> \<open>A block test for the examples: reducible when either node set is empty.\<close>
  "example_block_reducible cm nodes1 nodes2 = (nodes1 = [] \<or> nodes2 = [])"

definition example_zero_sbn :: nd where
  \<comment> \<open>Another two-node TPM, state-by-node: no node is ever on.\<close>
  "example_zero_sbn =
     Arr [Arr [Num 0, Num 0], Arr [Num 0, Num 0], Arr [Num 0, Num 0], Arr [Num 0, Num 0]]"

definition example_zero_nd :: nd where
  "example_zero_nd =
     Arr [Arr [Arr [Num 0, Num 0], Arr [Num 0, Num 0]],
          Arr [Arr [Num 0, Num 0], Arr [Num 0, Num 0]]]"

section \<open>The canonical tensor\<close>

lemma length_evens_odds:
  "length (evens xs) + length (odds xs) = length xs"
  by (induction xs rule: evens.induct) auto

lemma length_evens_double: "length xs = 2 * k \<Longrightarrow> length (evens xs) = k \<and> length (odds xs) = k"
proof (induction xs arbitrary: k rule: evens.induct)
  case 1
  then show ?case by simp
next
  case (2 x)
  then show ?case by simp
next
  case (3 x y zs)
  then obtain j where "k = Suc j" by (cases k) auto
  with 3 show ?case by simp
qed

lemma set_evens: "set (evens xs) \<subseteq> set xs"
  by (induction xs rule: evens.induct) auto

lemma set_odds: "set (odds xs) \<subseteq> set xs"
  by (induction xs rule: odds.induct) auto

lemma set_evens_odds: "set (evens xs) \<union> set (odds xs) = set xs"
  by (induction xs rule: evens.induct) auto

lemma length_halves:
  assumes "length rows = 2 ^ Suc n"
  shows "length (evens rows) = 2 ^ n" and "length (odds rows) = 2 ^ n"
proof -
  from assms have "length rows = 2 * 2 ^ n" by simp
  from length_evens_double [OF this]
  show "length (evens rows) = 2 ^ n" and "length (odds rows) = 2 ^ n" by blast+
qed

lemma in_evens: "r \<in> set (evens rows) \<Longrightarrow> r \<in> set rows"
  using set_evens [of rows] by auto

lemma in_odds: "r \<in> set (odds rows) \<Longrightarrow> r \<in> set rows"
  using set_odds [of rows] by auto

lemma shape_tensor:
  "length rows = 2 ^ n \<Longrightarrow> (\<forall>r \<in> set rows. shape r = sh) \<Longrightarrow>
   shape (tensor n rows) = replicate n 2 @ sh"
proof (induction n arbitrary: rows)
  case 0
  then show ?case by (cases rows) simp_all
next
  case (Suc n)
  have e: "\<forall>r \<in> set (evens rows). shape r = sh"
    using Suc.prems(2) by (simp add: in_evens)
  have "shape (tensor n (evens rows)) = replicate n 2 @ sh"
    by (rule Suc.IH [OF length_halves(1) [OF Suc.prems(1)] e])
  then show ?case by simp
qed

lemma rect_tensor:
  "length rows = 2 ^ n \<Longrightarrow> (\<forall>r \<in> set rows. rect r \<and> shape r = sh) \<Longrightarrow>
   rect (tensor n rows)"
proof (induction n arbitrary: rows)
  case 0
  then show ?case by (cases rows) simp_all
next
  case (Suc n)
  note len = length_halves [OF Suc.prems(1)]
  have e: "\<forall>r \<in> set (evens rows). rect r \<and> shape r = sh"
    using Suc.prems(2) by (simp add: in_evens)
  have o: "\<forall>r \<in> set (odds rows). rect r \<and> shape r = sh"
    using Suc.prems(2) by (simp add: in_odds)
  have "shape (tensor n (evens rows)) = replicate n 2 @ sh"
    using e by (intro shape_tensor [OF len(1)]) simp
  moreover have "shape (tensor n (odds rows)) = replicate n 2 @ sh"
    using o by (intro shape_tensor [OF len(2)]) simp
  ultimately show ?case
    using Suc.IH [OF len(1) e] Suc.IH [OF len(2) o] by simp
qed

lemma set_elems_tensor:
  "length rows = 2 ^ n \<Longrightarrow> set (elems (tensor n rows)) = (\<Union>r \<in> set rows. set (elems r))"
proof (induction n arbitrary: rows)
  case 0
  then show ?case by (cases rows) simp_all
next
  case (Suc n)
  note len = length_halves [OF Suc.prems(1)]
  have "set (elems (tensor (Suc n) rows)) =
        (\<Union>r \<in> set (evens rows). set (elems r)) \<union> (\<Union>r \<in> set (odds rows). set (elems r))"
    using Suc.IH [OF len(1)] Suc.IH [OF len(2)] by simp
  also have "\<dots> = (\<Union>r \<in> set (evens rows) \<union> set (odds rows). set (elems r))"
    by (rule UN_Un [symmetric])
  finally show ?case by (simp only: set_evens_odds)
qed

lemma nth_evens: "k < length (evens xs) \<Longrightarrow> evens xs ! k = xs ! (2 * k)"
proof (induction xs arbitrary: k rule: evens.induct)
  case 1
  then show ?case by simp
next
  case (2 x)
  then show ?case by simp
next
  case (3 x y zs)
  then show ?case by (cases k) auto
qed

lemma nth_odds: "k < length (odds xs) \<Longrightarrow> odds xs ! k = xs ! Suc (2 * k)"
proof (induction xs arbitrary: k rule: odds.induct)
  case 1
  then show ?case by simp
next
  case (2 x)
  then show ?case by simp
next
  case (3 x y zs)
  then show ?case by (cases k) auto
qed

lemma loli_index_less: "(\<forall>b \<in> set bs. b < 2) \<Longrightarrow> loli_index bs < 2 ^ length bs"
  by (induction bs) auto

lemma nd_index_tensor:
  "length rows = 2 ^ n \<Longrightarrow> length bs = n \<Longrightarrow> (\<forall>b \<in> set bs. b < 2) \<Longrightarrow>
   nd_index (tensor n rows) bs = rows ! loli_index bs"
proof (induction n arbitrary: rows bs)
  case 0
  then show ?case by (cases rows) auto
next
  case (Suc n)
  from Suc.prems(2) obtain b bs' where bs: "bs = b # bs'" and lbs: "length bs' = n"
    by (cases bs) auto
  note len = length_halves [OF Suc.prems(1)]
  have bits: "\<forall>b \<in> set bs'. b < 2" and b: "b = 0 \<or> b = 1"
    using Suc.prems(3) bs by auto
  have lt: "loli_index bs' < 2 ^ n"
    using loli_index_less [OF bits] lbs by simp
  from b show ?case
  proof
    assume "b = 0"
    then show ?thesis
      using Suc.IH [OF len(1) lbs bits] nth_evens [of "loli_index bs'" rows] lt len bs by simp
  next
    assume "b = 1"
    then show ?thesis
      using Suc.IH [OF len(2) lbs bits] nth_odds [of "loli_index bs'" rows] lt len bs by simp
  qed
qed

section \<open>The example network\<close>

lemma example_tpm_setter:
  "tpm_setter example_np_hash example_sbs = Inr (\<lparr>arr = example_nd, writeable = False\<rparr>, 21)"
  "tpm_setter example_np_hash example_sbn = Inr (\<lparr>arr = example_nd, writeable = False\<rparr>, 21)"
  "tpm_setter example_np_hash example_nd = Inr (\<lparr>arr = example_nd, writeable = False\<rparr>, 21)"
  unfolding example_sbs_def example_sbn_def example_nd_def by code_simp+

lemma example_other_setters:
  "connectivity_matrix_setter example_np_hash 2 None =
     Inr (\<lparr>arr = Arr [Arr [Num 1, Num 1], Arr [Num 1, Num 1]], writeable = False\<rparr>, 20)"
  "connectivity_matrix_setter example_np_hash 2 (Some (Arr [Arr [Num 1, Num 1], Arr [Num 1, Num 1]])) =
     Inr (\<lparr>arr = Arr [Arr [Num 1, Num 1], Arr [Num 1, Num 1]], writeable = False\<rparr>, 20)"
  "perturb_vector_setter example_np_hash 2 None =
     Inr (\<lparr>arr = Arr [Num (1 / 2), Num (1 / 2)], writeable = False\<rparr>, 6)"
  "perturb_vector_setter example_np_hash 2 (Some (Arr [Num (1 / 2), Num (1 / 2)])) =
     Inr (\<lparr>arr = Arr [Num (1 / 2), Num (1 / 2)], writeable = False\<rparr>, 6)"
  "perturb_vector_setter example_np_hash 2 (Some (Arr [Num (1 / 4), Num (3 / 4)])) =
     Inr (\<lparr>arr = Arr [Num (1 / 4), Num (3 / 4)], writeable = False\<rparr>, 6)"
  by code_simp+

lemma example_shapes:
  "last (shape example_nd) = 2"
  "shape (Arr [Arr [Num 1, Num 1], Arr [Num 1, Num 1]]) = [2, 2]"
  "map int [0..<2] = [0, 1]"
  unfolding example_nd_def by code_simp+

lemma example_network_init:
  "Network_init example_np_hash example_sbs None None None None = Inr example_network"
  "Network_init example_np_hash example_sbn None None None None = Inr example_network"
  "Network_init example_np_hash example_nd None None None None = Inr example_network"
  by (simp_all add: Network_init_def example_tpm_setter example_other_setters example_shapes
        validate_network_def size_of_def example_network_def)

lemma example_labelled_init:
  "Network_init example_np_hash example_sbs None (Some [''A'', ''B'']) None None = Inr example_labelled"
  by (simp add: Network_init_def example_tpm_setter example_other_setters example_shapes
        validate_network_def size_of_def example_network_def example_labelled_def)

lemma example_perturbed_init:
  "Network_init example_np_hash example_sbs None None (Some (Arr [Num (1 / 4), Num (3 / 4)])) None =
     Inr example_perturbed"
  by (simp add: Network_init_def example_tpm_setter example_other_setters example_shapes
        validate_network_def size_of_def example_network_def example_perturbed_def)

section \<open>Network equality against other objects\<close>

text \<open>
  Claim C9.  Compared with an object that is not a network, \<open>Network_eq\<close> is \<open>False\<close>
  (a value, never an exception), and \<open>Network_ne\<close> is the negation of \<open>Network_eq\<close> on
  every pair of operands.
\<close>

theorem Network_eq_other_objects:
  "((\<forall>n. other \<noteq> NetworkObj n) \<longrightarrow> Network_eq self other = False) \<and>
   Network_ne self other' = (\<not> Network_eq self other')"
  by (cases other) (simp_all add: Network_ne_def)

theorem Network_eq_other_objects_witness:
  "Network_eq example_network NoneObj = False \<and>
   Network_eq example_network (StrObj ''network'') = False \<and>
   Network_ne example_network (NetworkObj example_perturbed) = True \<and>
   Network_ne example_network (NetworkObj example_network) = False"
  using Network_eq_other_objects [of NoneObj example_network "NetworkObj example_perturbed"]
  by (simp add: Network_ne_def array_equal_def example_network_def example_perturbed_def)

section \<open>Truth value of an analysis\<close>

text \<open>
  Claim C3.  For a tolerance between \<open>10\<^sup>-\<^sup>1\<^sup>2\<close> and \<open>0.05\<close> and an analysis whose \<open>phi\<close>
  is non-negative (as the data model has it), the analysis is true exactly when
  \<open>phi\<close> is greater than zero and not equal to zero under the tolerance.  With
  \<open>phi = 0\<close> and with \<open>phi = 10\<^sup>-\<^sup>1\<^sup>2\<close> it is false, with \<open>phi = 0.05\<close> it is true.
\<close>

theorem SIA_bool_iff:
  assumes "1 / 10 ^ 12 < tol" and "tol \<le> 5 / 100"
  shows "(0 \<le> phi s \<longrightarrow> SIA_bool tol s = (0 < phi s \<and> \<not> utils_eq tol (phi s) 0)) \<and>
         \<not> SIA_bool tol (s\<lparr>phi := 0\<rparr>) \<and>
         \<not> SIA_bool tol (s\<lparr>phi := 1 / 10 ^ 12\<rparr>) \<and>
         SIA_bool tol (s\<lparr>phi := 5 / 100\<rparr>)"
proof -
  have "(0::real) < 1 / 10 ^ 12" by simp
  with assms(1) have pos: "0 < tol" by linarith
  show ?thesis using assms pos by (auto simp: SIA_bool_def utils_eq_def)
qed

theorem SIA_bool_iff_witness:
  "(1::real) / 10 ^ 12 < 1 / 10 ^ 6 \<and> (1::real) / 10 ^ 6 \<le> 5 / 100 \<and>
   0 \<le> phi (example_sia (1 / 2) [0, 1] example_network) \<and>
   SIA_bool (1 / 10 ^ 6) (example_sia (1 / 2) [0, 1] example_network) \<and>
   \<not> SIA_bool (1 / 10 ^ 6) (example_sia 0 [0, 1] example_network) \<and>
   \<not> SIA_bool (1 / 10 ^ 6) (example_sia (1 / 10 ^ 12) [0, 1] example_network) \<and>
   SIA_bool (1 / 10 ^ 6) (example_sia (5 / 100) [0, 1] example_network)"
  using SIA_bool_iff [of "1 / 10 ^ 6" "example_sia (1 / 2) [0, 1] example_network"]
  by (simp add: example_sia_def utils_eq_def)

section \<open>Irreducible purviews\<close>

lemma irreducible_purviews_total:
  "direction \<in> set DIRECTIONS \<Longrightarrow>
   \<exists>r. irreducible_purviews br cm direction mechanism purviews = Inr r"
  by (induction purviews) (auto simp: reducible_def DIRECTIONS_def PAST_def FUTURE_def)

lemma irreducible_purviews_filter:
  "irreducible_purviews br cm direction mechanism purviews = Inr r \<Longrightarrow>
   r = filter (\<lambda>p. reducible br cm direction mechanism p = Inr False) purviews"
proof (induction purviews arbitrary: r)
  case Nil
  then show ?case by simp
next
  case (Cons p ps)
  then show ?case by (auto split: sum.splits if_splits)
qed

text \<open>
  Claim C10.  With one of the two directions \<open>irreducible_purviews\<close> returns, and
  whatever it returns is a subsequence of the purviews it was given: the purviews
  found not reducible, in their order, none repeated and none added.
\<close>

theorem irreducible_purviews_subsequence:
  "(direction \<in> set DIRECTIONS \<longrightarrow>
      (\<exists>r. irreducible_purviews br cm direction mechanism purviews = Inr r)) \<and>
   (\<forall>r. irreducible_purviews br cm direction mechanism purviews = Inr r \<longrightarrow>
      subseq r purviews \<and>
      r = filter (\<lambda>p. reducible br cm direction mechanism p = Inr False) purviews)"
  using irreducible_purviews_total [of direction br cm mechanism purviews]
    irreducible_purviews_filter [of br cm direction mechanism purviews]
  by auto

theorem irreducible_purviews_subsequence_witness:
  "''future'' \<in> set DIRECTIONS \<and>
   irreducible_purviews example_block_reducible (Arr [Arr [Num 1, Num 1], Arr [Num 1, Num 1]])
     ''future'' [0] [[], [0], [1], [0, 1]] = Inr [[0], [1], [0, 1]] \<and>
   subseq [[0], [1], [0, 1 :: int]] [[], [0], [1], [0, 1]]"
  using irreducible_purviews_subsequence [of "''future''" example_block_reducible
      "Arr [Arr [Num 1, Num 1], Arr [Num 1, Num 1]]" "[0]" "[[], [0], [1], [0, 1]]"]
  by (simp add: DIRECTIONS_def PAST_def FUTURE_def reducible_def example_block_reducible_def)

section \<open>Ordering analyses\<close>

lemma Network_eq_sym: "Network_eq a (NetworkObj b) = Network_eq b (NetworkObj a)"
  by (auto simp: array_equal_def)


lemma orderable_sym: "orderable a b = orderable b a"
  unfolding orderable_def by (rule Network_eq_sym)


text \<open>
  Claim C6.  Ordering two analyses whose networks are not content-equal raises (here
  \<open>TypeError\<close>) for \<open><\<close> and \<open>>\<close> in either direction, instead of returning an
  order; analyses whose networks are content-equal are ordered.
\<close>

theorem SIA_order_guard:
  "(\<not> Network_eq (network a) (NetworkObj (network b)) \<longrightarrow>
      SIA_lt a b = Inl TypeError \<and> SIA_lt b a = Inl TypeError \<and>
      SIA_gt a b = Inl TypeError \<and> SIA_gt b a = Inl TypeError) \<and>
   (Network_eq (network a) (NetworkObj (network b)) \<longrightarrow>
      (\<exists>r. SIA_lt a b = Inr r) \<and> (\<exists>r. SIA_lt b a = Inr r) \<and>
      (\<exists>r. SIA_gt a b = Inr r) \<and> (\<exists>r. SIA_gt b a = Inr r))"
  using orderable_sym [of a b] by (simp add: SIA_lt_def SIA_gt_def orderable_def)

theorem SIA_order_guard_witness:
  "\<not> Network_eq example_network (NetworkObj example_perturbed) \<and>
   SIA_lt (example_sia (1 / 4) [0] example_network)
      (example_sia (1 / 2) [0, 1] example_perturbed) = Inl TypeError \<and>
   SIA_gt (example_sia (1 / 4) [0] example_network)
      (example_sia (1 / 2) [0, 1] example_perturbed) = Inl TypeError \<and>
   Network_eq example_network (NetworkObj example_labelled) \<and>
   SIA_lt (example_sia (1 / 4) [0] example_network)
      (example_sia (1 / 2) [0, 1] example_labelled) = Inr True \<and>
   SIA_gt (example_sia (1 / 4) [0] example_network)
      (example_sia (1 / 2) [0, 1] example_labelled) = Inr False"
  using SIA_order_guard [of "example_sia (1 / 4) [0] example_network"
      "example_sia (1 / 2) [0, 1] example_perturbed"]
    SIA_order_guard [of "example_sia (1 / 4) [0] example_network"
      "example_sia (1 / 2) [0, 1] example_labelled"]
  by (simp add: SIA_lt_def SIA_gt_def orderable_def network_def example_sia_def
        array_equal_def example_network_def example_perturbed_def example_labelled_def
        order_lt_def order_by_def subsystem_len_def)







lemma tied_phi_ordered_by_phi:
  assumes "orderable a b" and "utils_eq tol (phi a) (phi b)" and "phi a < phi b"
  shows "SIA_lt a b = Inr True" and "SIA_lt b a = Inr False"
  using assms orderable_sym [of a b]
  by (simp_all add: SIA_lt_def order_lt_def order_by_def)

section \<open>Node indices from labels or indices\<close>

lemma sorted_set_props: "sorted_wrt (<) (sorted_set xs) \<and> set (sorted_set xs) = set xs"
  by (simp add: sorted_set_def strict_sorted_iff)

lemma lookup_all_known:
  "set labels \<subseteq> dom m \<Longrightarrow> lookup_all m labels = Inr (map (\<lambda>l. the (m l)) labels)"
  by (induction labels) auto

lemma lookup_all_unknown:
  "\<not> set labels \<subseteq> dom m \<Longrightarrow> lookup_all m labels = Inl KeyError"
proof (induction labels)
  case Nil
  then show ?case by simp
next
  case (Cons l ls)
  then show ?case by (cases "m l"; cases "lookup_all m ls") auto
qed

lemma dom_label_map:
  "length ls = length ns \<Longrightarrow> dom (map_of (rev (zip ls ns))) = set ls"
proof -
  assume len: "length ls = length ns"
  have "dom (map_of (rev (zip ls ns))) = fst ` set (rev (zip ls ns))"
    by (rule dom_map_of_conv_image_fst)
  also have "\<dots> = set (map fst (zip ls ns))" by simp
  also have "\<dots> = set ls" using len by simp
  finally show ?thesis .
qed

lemma int_of_str_error: "int_of_str s = Inl e \<Longrightarrow> e = ValueError"
  by (auto simp: int_of_str_def split: list.splits if_splits option.splits)

lemma map_int_error: "map_int nodes = Inl e \<Longrightarrow> e = ValueError"
proof (induction nodes)
  case Nil
  then show ?case by simp
next
  case (Cons x xs)
  then show ?case
    by (cases x) (auto split: sum.splits dest: int_of_str_error)
qed

lemma map_int_fails_iff:
  "(\<exists>e. map_int nodes = Inl e) = (\<exists>s e. Label s \<in> set nodes \<and> int_of_str s = Inl e)"
proof (induction nodes)
  case Nil
  then show ?case by simp
next
  case (Cons x xs)
  show ?case
  proof (cases x)
    case (Label s)
    then show ?thesis using Cons
      by (cases "int_of_str s"; cases "map_int xs") auto
  next
    case (Index i)
    then show ?thesis using Cons
      by (cases "map_int xs") auto
  qed
qed

lemma map_int_indices:
  "list_all (\<lambda>x. \<not> is_str x) nodes \<Longrightarrow> \<exists>ns. map_int nodes = Inr ns \<and> nodes = map Index ns"
proof (induction nodes)
  case Nil
  then show ?case by simp
next
  case (Cons x xs)
  then show ?case by (cases x) auto
qed

lemma example_conversions:
  "int_of_str ''1'' = Inr 1" "int_of_str ''A'' = Inl ValueError" "int_of_str ''B'' = Inl ValueError"
  by code_simp+

text \<open>
  Claim C8, as amended.  On a non-empty sequence: when all elements are labels of a
  network whose labels cover its indices, the result is the sorted set of the
  indices the label map gives if every label is known, and \<open>KeyError\<close> if one is
  not; when all elements are indices, the result is their sorted set; when not all
  elements are strings, every element goes through \<^verbatim>\<open>int\<close>, so the call fails
  exactly when some string element is not an integer literal, and returns the
  sorted set of the converted values otherwise.  Every result is strictly
  ascending, hence free of duplicates.
\<close>

theorem generate_node_indices_cases:
  assumes "nodes \<noteq> []"
  shows "(list_all is_str nodes \<and> node_labels self = Some ls \<and>
            length ls = length (node_indices self) \<longrightarrow>
            (set (map the_str nodes) \<subseteq> set ls \<longrightarrow>
               (\<exists>ns. labels2indices self (map the_str nodes) = Inr ns \<and>
                     generate_node_indices self nodes = Inr (sorted_set ns))) \<and>
            (\<not> set (map the_str nodes) \<subseteq> set ls \<longrightarrow>
               generate_node_indices self nodes = Inl KeyError)) \<and>
         (list_all (\<lambda>x. \<not> is_str x) nodes \<longrightarrow>
            (\<exists>ns. nodes = map Index ns \<and> generate_node_indices self nodes = Inr (sorted_set ns))) \<and>
         (\<not> list_all is_str nodes \<longrightarrow>
            (generate_node_indices self nodes = Inl ValueError) =
              (\<exists>s. Label s \<in> set nodes \<and> int_of_str s = Inl ValueError) \<and>
            (\<forall>ns. map_int nodes = Inr ns \<longrightarrow>
               generate_node_indices self nodes = Inr (sorted_set ns))) \<and>
         (\<forall>r. generate_node_indices self nodes = Inr r \<longrightarrow> sorted_wrt (<) r)"
proof -
  have A: "list_all is_str nodes \<and> node_labels self = Some ls \<and>
            length ls = length (node_indices self) \<longrightarrow>
            (set (map the_str nodes) \<subseteq> set ls \<longrightarrow>
               (\<exists>ns. labels2indices self (map the_str nodes) = Inr ns \<and>
                     generate_node_indices self nodes = Inr (sorted_set ns))) \<and>
            (\<not> set (map the_str nodes) \<subseteq> set ls \<longrightarrow>
               generate_node_indices self nodes = Inl KeyError)"
  proof (intro impI, elim conjE)
    assume str: "list_all is_str nodes" and ls: "node_labels self = Some ls"
      and len: "length ls = length (node_indices self)"
    let ?m = "map_of (rev (zip ls (node_indices self)))"
    have dom: "dom ?m = set ls" using len by (rule dom_label_map)
    have l2i: "labels2indices self (map the_str nodes) = lookup_all ?m (map the_str nodes)"
      by (simp add: labels2indices_def ls)
    show "(set (map the_str nodes) \<subseteq> set ls \<longrightarrow>
               (\<exists>ns. labels2indices self (map the_str nodes) = Inr ns \<and>
                     generate_node_indices self nodes = Inr (sorted_set ns))) \<and>
            (\<not> set (map the_str nodes) \<subseteq> set ls \<longrightarrow>
               generate_node_indices self nodes = Inl KeyError)"
    proof (intro conjI impI)
      assume "set (map the_str nodes) \<subseteq> set ls"
      then have "lookup_all ?m (map the_str nodes) =
                 Inr (map (\<lambda>l. the (?m l)) (map the_str nodes))"
        using dom by (intro lookup_all_known) simp
      then show "\<exists>ns. labels2indices self (map the_str nodes) = Inr ns \<and>
                     generate_node_indices self nodes = Inr (sorted_set ns)"
        using assms str l2i by (simp add: generate_node_indices_def)
    next
      assume "\<not> set (map the_str nodes) \<subseteq> set ls"
      then have "lookup_all ?m (map the_str nodes) = Inl KeyError"
        using dom by (intro lookup_all_unknown) simp
      then show "generate_node_indices self nodes = Inl KeyError"
        using assms str l2i by (simp add: generate_node_indices_def)
    qed
  qed
  have B: "list_all (\<lambda>x. \<not> is_str x) nodes \<longrightarrow>
            (\<exists>ns. nodes = map Index ns \<and> generate_node_indices self nodes = Inr (sorted_set ns))"
  proof
    assume idx: "list_all (\<lambda>x. \<not> is_str x) nodes"
    then obtain ns where ns: "map_int nodes = Inr ns" "nodes = map Index ns"
      using map_int_indices by blast
    have "\<not> list_all is_str nodes"
      using idx assms by (cases nodes) auto
    then show "\<exists>ns. nodes = map Index ns \<and> generate_node_indices self nodes = Inr (sorted_set ns)"
      using ns assms by (auto simp: generate_node_indices_def)
  qed
  have C: "\<not> list_all is_str nodes \<longrightarrow>
            (generate_node_indices self nodes = Inl ValueError) =
              (\<exists>s. Label s \<in> set nodes \<and> int_of_str s = Inl ValueError) \<and>
            (\<forall>ns. map_int nodes = Inr ns \<longrightarrow>
               generate_node_indices self nodes = Inr (sorted_set ns))"
  proof
    assume mixed: "\<not> list_all is_str nodes"
    have gen: "generate_node_indices self nodes =
               (case map_int nodes of Inl e \<Rightarrow> Inl e | Inr ns \<Rightarrow> Inr (sorted_set ns))"
      using assms mixed by (simp add: generate_node_indices_def)
    have "(generate_node_indices self nodes = Inl ValueError) = (\<exists>e. map_int nodes = Inl e)"
      using gen map_int_error [of nodes] by (cases "map_int nodes") auto
    also have "\<dots> = (\<exists>s e. Label s \<in> set nodes \<and> int_of_str s = Inl e)"
      by (rule map_int_fails_iff)
    also have "\<dots> = (\<exists>s. Label s \<in> set nodes \<and> int_of_str s = Inl ValueError)"
      using int_of_str_error by blast
    finally show "(generate_node_indices self nodes = Inl ValueError) =
              (\<exists>s. Label s \<in> set nodes \<and> int_of_str s = Inl ValueError) \<and>
            (\<forall>ns. map_int nodes = Inr ns \<longrightarrow>
               generate_node_indices self nodes = Inr (sorted_set ns))"
      using gen by simp
  qed
  have D: "\<forall>r. generate_node_indices self nodes = Inr r \<longrightarrow> sorted_wrt (<) r"
    using sorted_set_props
    by (auto simp: generate_node_indices_def split: if_splits sum.splits)
  from A B C D show ?thesis by blast
qed

theorem generate_node_indices_cases_witness:
  "[Label ''B'', Label ''A'', Label ''B''] \<noteq> [] \<and>
   node_labels example_labelled = Some [''A'', ''B''] \<and>
   generate_node_indices example_labelled [Label ''B'', Label ''A'', Label ''B''] = Inr [0, 1] \<and>
   generate_node_indices example_labelled [Label ''B'', Label ''C''] = Inl KeyError \<and>
   generate_node_indices example_labelled [Index 1, Index 0, Index 1] = Inr [0, 1] \<and>
   generate_node_indices example_labelled [Label ''A'', Index 0] = Inl ValueError"
  using generate_node_indices_cases [of "[Label ''B'', Label ''A'', Label ''B'']" example_labelled "[''A'', ''B'']"]
  by (simp add: generate_node_indices_def labels2indices_def example_labelled_def
        example_network_def sorted_set_def example_conversions)

text \<open>
  A sequence mixing a label with an index is accepted when the label reads as an
  integer: \<^verbatim>\<open>['1', 0]\<close> gives \<open>(0, 1)\<close>.
\<close>

theorem generate_node_indices_mixed_accepted:
  "\<not> list_all is_str [Label ''1'', Index 0] \<and>
   \<not> list_all (\<lambda>x. \<not> is_str x) [Label ''1'', Index 0] \<and>
   generate_node_indices example_labelled [Label ''1'', Index 0] = Inr [0, 1]"
  by (simp add: generate_node_indices_def sorted_set_def example_conversions)

section \<open>Potential purviews\<close>

lemma set_combinations:
  "set (combinations xs r) = {ys. subseq ys xs \<and> length ys = r}"
proof (induction xs r rule: combinations.induct)
  case (1 xs)
  then show ?case by auto
next
  case (2 r)
  then show ?case by auto
next
  case (3 x xs r)
  show ?case
  proof (intro set_eqI iffI)
    fix ys
    assume "ys \<in> set (combinations (x # xs) (Suc r))"
    then show "ys \<in> {ys. subseq ys (x # xs) \<and> length ys = Suc r}"
      using 3 by auto
  next
    fix ys
    assume "ys \<in> {ys. subseq ys (x # xs) \<and> length ys = Suc r}"
    then have sub: "subseq ys (x # xs)" and len: "length ys = Suc r" by auto
    from len obtain y ys' where ys: "ys = y # ys'" by (cases ys) auto
    show "ys \<in> set (combinations (x # xs) (Suc r))"
    proof (cases "y = x")
      case True
      with sub ys have "subseq ys' xs" by simp
      with len ys True 3 show ?thesis by auto
    next
      case False
      with sub ys have "subseq ys xs" by simp
      with len 3 show ?thesis by auto
    qed
  qed
qed

lemma set_powerset: "set (powerset xs) = {ys. subseq ys xs}"
proof (intro set_eqI iffI)
  fix ys
  assume "ys \<in> set (powerset xs)"
  then show "ys \<in> {ys. subseq ys xs}"
    by (auto simp: powerset_def set_combinations)
next
  fix ys
  assume "ys \<in> {ys. subseq ys xs}"
  then have s: "subseq ys xs" by simp
  then have "length ys \<le> length xs" by (rule list_emb_length)
  then have "length ys \<in> set [0..<length xs + 1]" by auto
  moreover have "ys \<in> set (combinations xs (length ys))"
    using s by (simp add: set_combinations)
  ultimately show "ys \<in> set (powerset xs)"
    unfolding powerset_def set_concat set_map by blast
qed

lemma subseq_sorted_wrt:
  "subseq ys xs \<Longrightarrow> sorted_wrt P xs \<Longrightarrow> sorted_wrt P ys"
proof (induction rule: list_emb.induct)
  case (list_emb_Nil ys)
  then show ?case by simp
next
  case (list_emb_Cons xs ys y)
  then show ?case by simp
next
  case (list_emb_Cons2 x y xs ys)
  then have "set xs \<subseteq> set ys" by (auto dest: list_emb_set)
  with list_emb_Cons2 show ?case by auto
qed

lemma subseq_strict_sorted:
  assumes "sorted_wrt (<) (xs :: int list)"
  shows "subseq ys xs = (sorted_wrt (<) ys \<and> set ys \<subseteq> set xs)"
proof
  assume s: "subseq ys xs"
  then have "set ys \<subseteq> set xs" by (auto dest: list_emb_set)
  with s assms show "sorted_wrt (<) ys \<and> set ys \<subseteq> set xs"
    by (simp add: subseq_sorted_wrt)
next
  assume a: "sorted_wrt (<) ys \<and> set ys \<subseteq> set xs"
  have "sorted_wrt (\<le>) xs"
    using assms by (rule sorted_wrt_mono_rel [rotated]) simp
  with a show "subseq ys xs" by (simp add: sorted_subset_imp_subseq)
qed

lemma sorted_node_indices: "sorted_wrt (<) (map int [0..<n])"
  by (simp add: sorted_wrt_map sorted_wrt_upt)

lemma potential_purviews_result:
  assumes "cache_consistent br self"
  shows "fst (potential_purviews br self direction mechanism) =
         irreducible_purviews br (arr (connectivity_matrix self)) direction mechanism
           (powerset (node_indices self))"
proof (cases "purview_cache self (direction, mechanism)")
  case None
  then show ?thesis
    by (simp add: potential_purviews_def split: sum.splits)
next
  case (Some r)
  with assms show ?thesis
    by (simp add: potential_purviews_def cache_consistent_def)
qed

lemma potential_purviews_fields:
  "(snd (potential_purviews br self direction mechanism))\<lparr>purview_cache := purview_cache self\<rparr> = self"
  by (simp add: potential_purviews_def split: option.splits sum.splits)

lemma potential_purviews_consistent:
  assumes "cache_consistent br self"
  shows "cache_consistent br (snd (potential_purviews br self direction mechanism))"
proof (cases "purview_cache self (direction, mechanism)")
  case (Some r)
  with assms show ?thesis by (simp add: potential_purviews_def)
next
  case None
  show ?thesis
  proof (cases "irreducible_purviews br (arr (connectivity_matrix self)) direction mechanism
                  (powerset (node_indices self))")
    case (Inl e)
    with None assms show ?thesis by (simp add: potential_purviews_def)
  next
    case (Inr r)
    with None assms show ?thesis
      by (auto simp: potential_purviews_def cache_consistent_def)
  qed
qed

lemma Network_init_fresh_cache:
  assumes "Network_init np_hash t cm labels pv None = Inr n"
  shows "purview_cache n = Map.empty" and "node_indices n = map int [0..<size_of n]"
  using assms
  by (auto simp: Network_init_def Let_def size_of_def split: sum.splits prod.splits if_splits)

lemma empty_cache_consistent: "purview_cache n = Map.empty \<Longrightarrow> cache_consistent br n"
  by (simp add: cache_consistent_def)

lemma example_powerset: "powerset [0, 1 :: int] = [[], [0], [1], [0, 1]]"
  by code_simp

text \<open>
  Claim C4.  On a network whose purview cache is consistent (a network built without
  a given cache has an empty one, and every call keeps the cache consistent) and
  for either direction, \<open>potential_purviews\<close> returns exactly the purviews of the
  powerset of the node indices, that is the subsequences of the index tuple, that
  are not block-reducible over the connectivity matrix; the connections tested run
  from the mechanism to the purview for "future" and from the purview to the
  mechanism for "past".
\<close>

theorem potential_purviews_exact:
  assumes "cache_consistent block_reducible self" and "direction \<in> set DIRECTIONS"
  shows "\<exists>r. fst (potential_purviews block_reducible self direction mechanism) = Inr r \<and>
           r = filter (\<lambda>purview. \<not> (if direction = DIRECTIONS ! FUTURE
                      then block_reducible (arr (connectivity_matrix self)) mechanism purview
                      else block_reducible (arr (connectivity_matrix self)) purview mechanism))
                 (powerset (node_indices self)) \<and>
           set r = {purview. subseq purview (node_indices self) \<and>
                     \<not> (if direction = DIRECTIONS ! FUTURE
                      then block_reducible (arr (connectivity_matrix self)) mechanism purview
                      else block_reducible (arr (connectivity_matrix self)) purview mechanism)} \<and>
           cache_consistent block_reducible
             (snd (potential_purviews block_reducible self direction mechanism))"
proof -
  let ?cm = "arr (connectivity_matrix self)"
  let ?ps = "powerset (node_indices self)"
  let ?keep = "\<lambda>purview. \<not> (if direction = DIRECTIONS ! FUTURE
                      then block_reducible ?cm mechanism purview
                      else block_reducible ?cm purview mechanism)"
  obtain r where r: "irreducible_purviews block_reducible ?cm direction mechanism ?ps = Inr r"
    using irreducible_purviews_total [OF assms(2)] by blast
  have "r = filter (\<lambda>p. reducible block_reducible ?cm direction mechanism p = Inr False) ?ps"
    using r by (rule irreducible_purviews_filter)
  also have "\<dots> = filter ?keep ?ps"
    using assms(2) by (auto simp: reducible_def DIRECTIONS_def PAST_def FUTURE_def intro!: filter_cong)
  finally have f: "r = filter ?keep ?ps" .
  have s: "set r = {purview. subseq purview (node_indices self) \<and> ?keep purview}"
    unfolding f by (simp add: set_powerset)
  show ?thesis
    using r f s potential_purviews_result [OF assms(1), of direction mechanism]
      potential_purviews_consistent [OF assms(1), of direction mechanism]
    by simp
qed

theorem potential_purviews_exact_witness:
  "cache_consistent example_block_reducible example_network \<and>
   ''future'' \<in> set DIRECTIONS \<and>
   fst (potential_purviews example_block_reducible example_network ''future'' [0]) =
     Inr [[0], [1], [0, 1]] \<and>
   fst (potential_purviews example_block_reducible
          (snd (potential_purviews example_block_reducible example_network ''future'' [0]))
          ''future'' [0]) = Inr [[0], [1], [0, 1]] \<and>
   fst (potential_purviews example_block_reducible example_network ''past'' []) = Inr []"
  using potential_purviews_exact [of example_block_reducible example_network "''future''" "[0]"]
  by (simp add: cache_consistent_def potential_purviews_def example_network_def
        example_powerset DIRECTIONS_def PAST_def FUTURE_def reducible_def
        example_block_reducible_def)

section \<open>Canonical form of the TPM\<close>

lemma rect_shape_children:
  assumes "rect t" and "shape t = a # sh" and "0 < a"
  shows "length (children t) = a" and "\<forall>c \<in> set (children t). rect c \<and> shape c = sh"
    and "t = Arr (children t)"
proof -
  from assms(2) obtain xs where t: "t = Arr xs" by (cases t) auto
  from assms(2,3) t obtain x xs' where xs: "xs = x # xs'" by (cases xs) auto
  from assms(2) t xs have a: "a = Suc (length xs')" and sh: "sh = shape x" by auto
  show "length (children t) = a" using t xs a by simp
  show "\<forall>c \<in> set (children t). rect c \<and> shape c = sh"
    using assms(1) t xs sh by (simp add: list_all_iff)
  show "t = Arr (children t)" using t by simp
qed

lemma shape_Arr_rows:
  assumes "rows \<noteq> []" and "\<forall>r \<in> set rows. shape r = sh"
  shows "shape (Arr rows) = length rows # sh"
  using assms by (cases rows) auto

lemma rect_Arr_rows:
  assumes "\<forall>r \<in> set rows. rect r \<and> shape r = sh"
  shows "rect (Arr rows)"
  using assms by (cases rows) (auto simp: list_all_iff)

lemma shape_marginal_row: "shape (marginal_row N r) = [N]"
proof (cases N)
  case 0
  then show ?thesis by (simp add: marginal_row_def)
next
  case (Suc k)
  have "[0..<Suc k] = 0 # [Suc 0..<Suc k]" by (simp add: upt_conv_Cons)
  then show ?thesis using Suc by (simp add: marginal_row_def)
qed

lemma rect_marginal_row: "rect (marginal_row N r)"
proof -
  have "\<forall>c \<in> set (map (\<lambda>k. Num (on_probability (elems r) k)) [0..<N]). rect c \<and> shape c = []"
    by auto
  then show ?thesis unfolding marginal_row_def by (rule rect_Arr_rows)
qed

lemma canonical_shape_not_square:
  "shape c = replicate N 2 @ [N] \<Longrightarrow> \<not> state_by_state c"
proof (cases N)
  case 0
  assume "shape c = replicate N 2 @ [N]"
  with 0 show ?thesis by (simp add: state_by_state_def)
next
  case (Suc k)
  assume s: "shape c = replicate N 2 @ [N]"
  show ?thesis
  proof (cases k)
    case 0
    with s Suc show ?thesis by (simp add: state_by_state_def)
  next
    case (Suc j)
    with s \<open>N = Suc k\<close> show ?thesis by (simp add: state_by_state_def split: list.splits)
  qed
qed

lemma to_n_dimensional_canonical_shape:
  "shape c = replicate N 2 @ [N] \<Longrightarrow> to_n_dimensional c = c"
  by (simp add: to_n_dimensional_def)

lemma sbs_valid_shape:
  assumes "validate_tpm t" and "state_by_state t"
  shows "shape t = [2 ^ log2 (hd (shape t)), 2 ^ log2 (hd (shape t))]"
proof -
  from assms(2) obtain a where sh: "shape t = [a, a]"
    by (auto simp: state_by_state_def split: list.splits)
  from assms have "2 ^ log2 (hd (shape t)) = hd (shape t)"
    by (simp add: validate_tpm_def Let_def)
  with sh show ?thesis by simp
qed

lemma sbn_valid_shape:
  assumes "validate_tpm t" and "\<not> state_by_state t"
  shows "shape t = [2 ^ last (shape t), last (shape t)] \<or>
         shape t = replicate (last (shape t)) 2 @ [last (shape t)]"
  using assms by (simp add: validate_tpm_def Let_def)

lemma marginalize_rows:
  assumes "rect t" and "shape t = [2 ^ N, 2 ^ N]" and "N = log2 (hd (shape t))"
  shows "length (children (marginalize t)) = 2 ^ N"
    and "\<forall>r \<in> set (children (marginalize t)). rect r \<and> shape r = [N]"
    and "shape (marginalize t) = [2 ^ N, N]"
    and "rect (marginalize t)"
proof -
  have len: "length (children t) = 2 ^ N"
    using rect_shape_children(1) [OF assms(1,2)] by simp
  have ch: "children (marginalize t) = map (marginal_row N) (children t)"
    using assms(3) by (simp add: marginalize_def)
  show l: "length (children (marginalize t)) = 2 ^ N" using len ch by simp
  show r: "\<forall>r \<in> set (children (marginalize t)). rect r \<and> shape r = [N]"
    using ch by (auto simp: rect_marginal_row shape_marginal_row)
  have ne: "children (marginalize t) \<noteq> []" using l by auto
  have m: "marginalize t = Arr (children (marginalize t))" by (simp add: marginalize_def)
  have "shape (Arr (children (marginalize t))) = length (children (marginalize t)) # [N]"
    using ne r by (intro shape_Arr_rows) auto
  with m l show "shape (marginalize t) = [2 ^ N, N]" by simp
  have "rect (Arr (children (marginalize t)))" using r by (rule rect_Arr_rows)
  with m show "rect (marginalize t)" by simp
qed

lemma canonical_sbs:
  assumes "validate_tpm t" and "state_by_state t"
  shows "shape (canonical t) = replicate (log2 (hd (shape t))) 2 @ [log2 (hd (shape t))]"
    and "rect (canonical t)"
proof -
  let ?N = "log2 (hd (shape t))"
  have rt: "rect t" using assms(1) by (simp add: validate_tpm_def)
  note sh = sbs_valid_shape [OF assms]
  note m = marginalize_rows [OF rt sh refl]
  have c: "canonical t = tensor ?N (children (marginalize t))"
    using assms(2) by (simp add: canonical_def state_by_state2state_by_node_def)
  have s: "\<forall>r \<in> set (children (marginalize t)). shape r = [?N]" using m(2) by simp
  show "shape (canonical t) = replicate ?N 2 @ [?N]"
    unfolding c using m(1) s by (rule shape_tensor)
  show "rect (canonical t)"
    unfolding c using m(1) m(2) by (rule rect_tensor)
qed

lemma canonical_sbn:
  assumes "validate_tpm t" and "\<not> state_by_state t"
  shows "shape (canonical t) = replicate (last (shape t)) 2 @ [last (shape t)]"
    and "rect (canonical t)"
proof -
  let ?N = "last (shape t)"
  have rt: "rect t" using assms(1) by (simp add: validate_tpm_def)
  have c: "canonical t = to_n_dimensional t" using assms(2) by (simp add: canonical_def)
  show "shape (canonical t) = replicate ?N 2 @ [?N]" "rect (canonical t)"
  proof -
    show "shape (canonical t) = replicate ?N 2 @ [?N]"
    proof (cases "shape t = replicate ?N 2 @ [?N]")
      case True
      then show ?thesis using c by (simp add: to_n_dimensional_def)
    next
      case False
      then have sh: "shape t = [2 ^ ?N, ?N]" using sbn_valid_shape [OF assms] by simp
      have l: "length (children t) = 2 ^ ?N"
        using rect_shape_children(1) [OF rt sh] by simp
      have r: "\<forall>r \<in> set (children t). shape r = [?N]"
        using rect_shape_children(2) [OF rt sh] by simp
      have "to_n_dimensional t = tensor ?N (children t)"
        using False by (simp add: to_n_dimensional_def Let_def)
      then show ?thesis using c shape_tensor [OF l r] by simp
    qed
    show "rect (canonical t)"
    proof (cases "shape t = replicate ?N 2 @ [?N]")
      case True
      then show ?thesis using c rt by (simp add: to_n_dimensional_def)
    next
      case False
      then have sh: "shape t = [2 ^ ?N, ?N]" using sbn_valid_shape [OF assms] by simp
      have l: "length (children t) = 2 ^ ?N"
        using rect_shape_children(1) [OF rt sh] by simp
      have r: "\<forall>r \<in> set (children t). rect r \<and> shape r = [?N]"
        using rect_shape_children(2) [OF rt sh] by simp
      have "to_n_dimensional t = tensor ?N (children t)"
        using False by (simp add: to_n_dimensional_def Let_def)
      then show ?thesis using c rect_tensor [OF l r] by simp
    qed
  qed
qed

lemma canonical_shape:
  assumes "validate_tpm t"
  shows "\<exists>N. shape (canonical t) = replicate N 2 @ [N]" and "rect (canonical t)"
  using canonical_sbs [OF assms] canonical_sbn [OF assms] by blast+

lemma canonical_fixed:
  assumes "shape c = replicate N 2 @ [N]"
  shows "canonical c = c"
  using canonical_shape_not_square [OF assms] to_n_dimensional_canonical_shape [OF assms]
  by (simp add: canonical_def)

lemma canonical_idem:
  assumes "validate_tpm t"
  shows "canonical (canonical t) = canonical t"
  using canonical_shape(1) [OF assms] canonical_fixed by blast

lemma on_probability_bounds:
  assumes "\<forall>p \<in> set row. 0 \<le> p" and "sum_list row = 1"
  shows "0 \<le> on_probability row k \<and> on_probability row k \<le> 1"
proof -
  let ?f = "\<lambda>j. if odd (j div 2 ^ k) then row ! j else 0"
  have nn: "\<And>j. j \<in> set [0..<length row] \<Longrightarrow> 0 \<le> ?f j"
    using assms(1) by auto
  have le: "\<And>j. j \<in> set [0..<length row] \<Longrightarrow> ?f j \<le> row ! j"
    using assms(1) by auto
  have "sum_list (map ?f [0..<length row]) \<le> sum_list (map (\<lambda>j. row ! j) [0..<length row])"
    using le by (rule sum_list_mono)
  also have "\<dots> = sum_list row" by (simp add: map_nth)
  finally have "on_probability row k \<le> 1" using assms(2) by (simp add: on_probability_def)
  moreover have "0 \<le> on_probability row k"
    unfolding on_probability_def
  proof (rule sum_list_nonneg)
    fix x
    assume "x \<in> set (map ?f [0..<length row])"
    then obtain j where "j \<in> set [0..<length row]" and "x = ?f j" by auto
    then show "0 \<le> x" using nn [of j] by (simp only:)
  qed
  ultimately show ?thesis by simp
qed

lemma elems_children: "t = Arr xs \<Longrightarrow> c \<in> set xs \<Longrightarrow> set (elems c) \<subseteq> set (elems t)"
  by auto

lemma probabilities_canonical:
  assumes "validate_tpm t"
  shows "probabilities (canonical t)"
proof (cases "state_by_state t")
  case True
  let ?N = "log2 (hd (shape t))"
  have rt: "rect t" using assms by (simp add: validate_tpm_def)
  note sh = sbs_valid_shape [OF assms True]
  note m = marginalize_rows [OF rt sh refl]
  note ch = rect_shape_children [OF rt sh]
  have tA: "t = Arr (children t)" using ch(3) by simp
  have pt: "\<forall>p \<in> set (elems t). 0 \<le> p \<and> p \<le> 1"
    using assms by (simp add: validate_tpm_def probabilities_def list_all_iff)
  have sums: "\<forall>r \<in> set (children t). sum_list (elems r) = 1"
    using assms True by (simp add: validate_tpm_def Let_def list_all_iff)
  have rows: "\<forall>r \<in> set (children t). \<forall>p \<in> set (elems (marginal_row ?N r)). 0 \<le> p \<and> p \<le> 1"
  proof (intro ballI)
    fix r p
    assume r: "r \<in> set (children t)" and p: "p \<in> set (elems (marginal_row ?N r))"
    have "set (elems r) \<subseteq> set (elems t)" using tA r by (rule elems_children)
    then have nn: "\<forall>q \<in> set (elems r). 0 \<le> q" using pt by auto
    from p obtain k where "p = on_probability (elems r) k"
      by (auto simp: marginal_row_def)
    then show "0 \<le> p \<and> p \<le> 1"
      using on_probability_bounds [OF nn] sums r by simp
  qed
  have c: "canonical t = tensor ?N (children (marginalize t))"
    using True by (simp add: canonical_def state_by_state2state_by_node_def)
  have "set (elems (canonical t)) = (\<Union>r \<in> set (children (marginalize t)). set (elems r))"
    unfolding c using m(1) by (rule set_elems_tensor)
  also have "\<dots> = (\<Union>r \<in> set (children t). set (elems (marginal_row ?N r)))"
    by (simp add: marginalize_def)
  finally show ?thesis using rows by (auto simp: probabilities_def list_all_iff)
next
  case False
  let ?N = "last (shape t)"
  have rt: "rect t" using assms by (simp add: validate_tpm_def)
  have pt: "probabilities t" using assms by (simp add: validate_tpm_def)
  have c: "canonical t = to_n_dimensional t" using False by (simp add: canonical_def)
  show ?thesis
  proof (cases "shape t = replicate ?N 2 @ [?N]")
    case True
    then show ?thesis using c pt by (simp add: to_n_dimensional_def)
  next
    case nc: False
    then have sh: "shape t = [2 ^ ?N, ?N]" using sbn_valid_shape [OF assms False] by simp
    note ch = rect_shape_children [OF rt sh]
    have l: "length (children t) = 2 ^ ?N" using ch(1) by simp
    have tA: "t = Arr (children t)" using ch(3) by simp
    have "to_n_dimensional t = tensor ?N (children t)"
      using nc by (simp add: to_n_dimensional_def Let_def)
    then have "set (elems (canonical t)) = (\<Union>r \<in> set (children t). set (elems r))"
      using c set_elems_tensor [OF l] by simp
    also have "\<dots> = set (elems (Arr (children t)))" by simp
    also have "\<dots> = set (elems t)" using tA by simp
    finally show ?thesis using pt by (simp add: probabilities_def list_all_iff)
  qed
qed

lemma validate_canonical:
  assumes "validate_tpm t"
  shows "validate_tpm (canonical t)"
proof -
  obtain N where sh: "shape (canonical t) = replicate N 2 @ [N]"
    using canonical_shape(1) [OF assms] by blast
  have "last (shape (canonical t)) = N" using sh by simp
  then show ?thesis
    using sh canonical_shape(2) [OF assms] probabilities_canonical [OF assms]
      canonical_shape_not_square [OF sh]
    by (simp add: validate_tpm_def Let_def)
qed

section \<open>Construction\<close>

lemma tpm_setter_Inr:
  "tpm_setter np_hash t = Inr (a, h) \<longleftrightarrow>
   validate_tpm t \<and> a = frozen (canonical t) \<and> h = np_hash (canonical t)"
  by (auto simp: tpm_setter_def np_array_def canonical_def validate_tpm_def Let_def)

lemma other_setter_Inr:
  "connectivity_matrix_setter np_hash sz cm = Inr (a, h) \<longleftrightarrow>
     (case cm of Some c \<Rightarrow> rect c \<and> a = frozen c \<and> h = np_hash c
      | None \<Rightarrow> a = frozen (np_ones2 sz) \<and> h = np_hash (np_ones2 sz))"
  "perturb_vector_setter np_hash sz pv = Inr (a, h) \<longleftrightarrow>
     (case pv of Some p \<Rightarrow> rect p \<and> a = frozen p \<and> h = np_hash p
      | None \<Rightarrow> a = frozen (np_halves sz) \<and> h = np_hash (np_halves sz))"
  by (auto simp: connectivity_matrix_setter_def perturb_vector_setter_def np_array_def
        split: option.splits)

lemma Network_init_Inr:
  assumes "Network_init np_hash t cm labels pv cache = Inr n"
  shows "validate_tpm t"
    and "tpm n = frozen (canonical t)"
    and "tpm_hash n = np_hash (canonical t)"
    and "connectivity_matrix n = frozen (given_or cm (np_ones2 (size_of n)))"
    and "cm_hash n = np_hash (given_or cm (np_ones2 (size_of n)))"
    and "perturb_vector n = frozen (given_or pv (np_halves (size_of n)))"
    and "pv_hash n = np_hash (given_or pv (np_halves (size_of n)))"
    and "validate_network n"
    and "node_labels n = labels"
proof -
  from assms obtain ta th where ts: "tpm_setter np_hash t = Inr (ta, th)"
    by (auto simp: Network_init_def split: sum.splits)
  let ?sz = "last (shape (arr ta))"
  from assms ts obtain ca ch where cs: "connectivity_matrix_setter np_hash ?sz cm = Inr (ca, ch)"
    by (auto simp: Network_init_def Let_def split: sum.splits)
  from assms ts cs obtain pa ph where ps: "perturb_vector_setter np_hash ?sz pv = Inr (pa, ph)"
    by (auto simp: Network_init_def Let_def split: sum.splits)
  let ?n = "\<lparr>tpm = ta, tpm_hash = th, num_states = 2 ^ ?sz,
             node_indices = map int [0..<?sz], node_labels = labels,
             connectivity_matrix = ca, cm_hash = ch,
             perturb_vector = pa, pv_hash = ph,
             purview_cache = (case cache of None \<Rightarrow> Map.empty | Some m \<Rightarrow> m)\<rparr>"
  from assms ts cs ps have n: "n = ?n" and vn: "validate_network ?n"
    by (auto simp: Network_init_def Let_def split: if_splits)
  have sz: "size_of n = ?sz" using n by (simp add: size_of_def)
  from ts show "validate_tpm t" by (simp add: tpm_setter_Inr)
  from ts n show "tpm n = frozen (canonical t)" by (simp add: tpm_setter_Inr)
  from ts n show "tpm_hash n = np_hash (canonical t)" by (simp add: tpm_setter_Inr)
  from cs n sz show "connectivity_matrix n = frozen (given_or cm (np_ones2 (size_of n)))"
    by (cases cm) (simp_all add: other_setter_Inr given_or_def)
  from cs n sz show "cm_hash n = np_hash (given_or cm (np_ones2 (size_of n)))"
    by (cases cm) (simp_all add: other_setter_Inr given_or_def)
  from ps n sz show "perturb_vector n = frozen (given_or pv (np_halves (size_of n)))"
    by (cases pv) (simp_all add: other_setter_Inr given_or_def)
  from ps n sz show "pv_hash n = np_hash (given_or pv (np_halves (size_of n)))"
    by (cases pv) (simp_all add: other_setter_Inr given_or_def)
  from vn n show "validate_network n" by simp
  from n show "node_labels n = labels" by simp
qed

section \<open>Serialisation round trip\<close>

lemma from_json_to_json:
  "from_json np_hash (to_json n) =
   Network_init np_hash (arr (tpm n)) (Some (arr (connectivity_matrix n))) None None None"
  by (simp add: from_json_def to_json_def)

lemma Network_init_canonical:
  assumes "validate_tpm t" and "rect c" and "shape c = [last (shape (canonical t)), last (shape (canonical t))]"
    and "list_all (\<lambda>x. x = 0 \<or> x = 1) (elems c)"
  shows "Network_init np_hash (canonical t) (Some c) None None None =
         Inr \<lparr>tpm = frozen (canonical t), tpm_hash = np_hash (canonical t),
              num_states = 2 ^ last (shape (canonical t)),
              node_indices = map int [0..<last (shape (canonical t))], node_labels = None,
              connectivity_matrix = frozen c, cm_hash = np_hash c,
              perturb_vector = frozen (np_halves (last (shape (canonical t)))),
              pv_hash = np_hash (np_halves (last (shape (canonical t)))),
              purview_cache = Map.empty\<rparr>"
proof -
  have ts: "tpm_setter np_hash (canonical t) =
            Inr (frozen (canonical t), np_hash (canonical t))"
    using validate_canonical [OF assms(1)] canonical_idem [OF assms(1)]
    by (simp add: tpm_setter_Inr)
  have cs: "connectivity_matrix_setter np_hash (last (shape (canonical t))) (Some c) =
            Inr (frozen c, np_hash c)"
    using assms(2) by (simp add: other_setter_Inr)
  have ps: "perturb_vector_setter np_hash (last (shape (canonical t))) None =
            Inr (frozen (np_halves (last (shape (canonical t)))),
                 np_hash (np_halves (last (shape (canonical t)))))"
    by (simp add: other_setter_Inr)
  show ?thesis
    using assms(2,3,4)
    by (simp add: Network_init_def ts cs ps Let_def frozen_def validate_network_def size_of_def)
qed

text \<open>
  Claim C5, as amended.  For every constructed network, whatever the form of the
  TPM it was built from, reconstruction from the \<open>tpm\<close> and \<open>cm\<close> fields of
  \<open>to_json\<close> succeeds and yields a network with an equal TPM, an equal connectivity
  matrix and the default perturbation vector; it is content-equal to the original
  exactly when the original's perturbation vector is that default, as it is when
  none was given.
\<close>

theorem json_round_trip:
  assumes "Network_init np_hash t cm labels pv cache = Inr n"
  shows "\<exists>n'. from_json np_hash (to_json n) = Inr n' \<and>
           array_equal (tpm n) (tpm n') \<and>
           array_equal (connectivity_matrix n) (connectivity_matrix n') \<and>
           arr (perturb_vector n') = np_halves (size_of n) \<and>
           Network_eq n (NetworkObj n') = (arr (perturb_vector n) = np_halves (size_of n)) \<and>
           (pv = None \<longrightarrow> Network_eq n (NetworkObj n'))"
proof -
  note a = Network_init_Inr [OF assms]
  let ?c = "arr (connectivity_matrix n)"
  have tn: "arr (tpm n) = canonical t" using a(2) by (simp add: frozen_def)
  have sz: "size_of n = last (shape (canonical t))" using tn by (simp add: size_of_def)
  have vn: "rect ?c" "shape ?c = [last (shape (canonical t)), last (shape (canonical t))]"
    "list_all (\<lambda>x. x = 0 \<or> x = 1) (elems ?c)"
    using a(8) sz by (simp_all add: validate_network_def Let_def)
  have pvn: "pv = None \<Longrightarrow> arr (perturb_vector n) = np_halves (size_of n)"
    using a(6) by (simp add: given_or_def frozen_def)
  show ?thesis
    unfolding from_json_to_json tn Network_init_canonical [OF a(1) vn]
    using tn sz pvn by (auto simp: array_equal_def frozen_def)
qed

theorem json_round_trip_witness:
  "Network_init example_np_hash example_sbs None (Some [''A'', ''B'']) None None = Inr example_labelled \<and>
   from_json example_np_hash (to_json example_labelled) = Inr example_network \<and>
   Network_eq example_labelled (NetworkObj example_network)"
  using json_round_trip [OF example_labelled_init]
  by (simp add: from_json_to_json example_labelled_init example_labelled_def
        example_network_def example_network_init [unfolded example_network_def]
        Network_init_def example_tpm_setter example_other_setters example_shapes
        validate_network_def size_of_def array_equal_def)

text \<open>
  The serialised form has no perturbation vector: the network built with
  \<open>[1/4, 3/4]\<close> comes back with \<open>[1/2, 1/2]\<close> and is not equal to the original.
\<close>

theorem json_round_trip_drops_perturb_vector:
  "Network_init example_np_hash example_sbs None None (Some (Arr [Num (1 / 4), Num (3 / 4)])) None =
     Inr example_perturbed \<and>
   from_json example_np_hash (to_json example_perturbed) = Inr example_network \<and>
   \<not> Network_eq example_perturbed (NetworkObj example_network)"
  by (simp add: from_json_to_json example_perturbed_init example_perturbed_def
        example_network_def
        Network_init_def example_tpm_setter example_other_setters example_shapes
        validate_network_def size_of_def array_equal_def)

section \<open>Immutability of a constructed network\<close>

lemma arrays_frozen:
  assumes "Network_init np_hash t cm labels pv cache = Inr n"
  shows "\<not> writeable (tpm n)" and "\<not> writeable (connectivity_matrix n)"
    and "\<not> writeable (perturb_vector n)"
  using Network_init_Inr(2,4,6) [OF assms] by (simp_all add: frozen_def)

lemma item_assignment_rejected:
  assumes "Network_init np_hash t cm labels pv cache = Inr n"
  shows "setitem_tpm n index v = Inl ValueError"
    and "setitem_connectivity_matrix n index v = Inl ValueError"
    and "setitem_perturb_vector n index v = Inl ValueError"
  using arrays_frozen [OF assms]
  by (simp_all add: setitem_tpm_def setitem_connectivity_matrix_def
        setitem_perturb_vector_def ndarray_setitem_def)

lemma potential_purviews_keeps_arrays:
  "tpm (snd (potential_purviews br n d m)) = tpm n \<and>
   connectivity_matrix (snd (potential_purviews br n d m)) = connectivity_matrix n \<and>
   perturb_vector (snd (potential_purviews br n d m)) = perturb_vector n \<and>
   Network_hash py_hash (snd (potential_purviews br n d m)) = Network_hash py_hash n"
  by (simp add: potential_purviews_def Network_hash_def split: option.splits sum.splits)

lemma example_zero_setter:
  "tpm_setter example_np_hash example_zero_sbn =
     Inr (\<lparr>arr = example_zero_nd, writeable = False\<rparr>, 8)"
  unfolding example_zero_sbn_def example_zero_nd_def by code_simp

text \<open>
  Claim C7.  Construction clears the \<open>writeable\<close> bit of the three arrays, so item
  assignment into any of them is rejected (\<open>item_assignment_rejected\<close>), and a
  query for potential purviews touches only the cache.  The content is still not
  fixed under every operation on the network: assigning to the property \<open>tpm\<close> of
  a constructed network runs the setter again, which has no guard; it replaces the
  array and its hash, and the network no longer equals what it was.  The source
  notes the missing guard (\<^verbatim>\<open>TODO!!! raise error if user tries to change TPM or CM\<close>).
\<close>

theorem tpm_assignment_replaces_content:
  "Network_init example_np_hash example_sbs None None None None = Inr example_network \<and>
   setitem_tpm example_network [0, 0, 0] 1 = Inl ValueError \<and>
   set_tpm example_np_hash example_network example_zero_sbn =
     Inr (example_network\<lparr>tpm := \<lparr>arr = example_zero_nd, writeable = False\<rparr>, tpm_hash := 8\<rparr>) \<and>
   \<not> Network_eq example_network
       (NetworkObj (example_network\<lparr>tpm := \<lparr>arr = example_zero_nd, writeable = False\<rparr>, tpm_hash := 8\<rparr>)) \<and>
   Network_hash example_py_hash example_network \<noteq>
     Network_hash example_py_hash
       (example_network\<lparr>tpm := \<lparr>arr = example_zero_nd, writeable = False\<rparr>, tpm_hash := 8\<rparr>)"
  using item_assignment_rejected(1) [OF example_network_init(1)]
  by (simp add: example_network_init set_tpm_def example_zero_setter array_equal_def
        Network_hash_def example_py_hash_def example_network_def example_nd_def
        example_zero_nd_def)

end
